theory Spec2Isabelle
  imports Complex_Main
begin

section \<open>Python and Pillow primitives used by the two scripts\<close>

text \<open>
  The scripts \<^verbatim>\<open>create_app_assets.py\<close> and \<^verbatim>\<open>create_beautiful_icon.py\<close> are straight-line
  drawing recipes over the Pillow imaging library. The embedding keeps the arithmetic and the
  control flow of the scripts. Pillow itself is not part of the repository: the few
  primitives the scripts call are modelled here, or taken as parameters where their pixel-exact
  behaviour is Pillow's own business (the ellipse rasteriser, the per-pixel blend).
\<close>

subsection \<open>Integer ranges\<close>

text \<open>
  \<^verbatim>\<open>range(start, stop, step)\<close> for a non-zero step. Python raises \<^verbatim>\<open>ValueError\<close> on a zero
  step; the scripts only pass literal non-zero steps, and the model returns the empty list there.
\<close>

function py_range :: "int \<Rightarrow> int \<Rightarrow> int \<Rightarrow> int list" where
  "py_range start stop step =
     (if 0 < step \<and> start < stop then start # py_range (start + step) stop step
      else if step < 0 \<and> stop < start then start # py_range (start + step) stop step
      else [])"
  by pat_completeness auto
termination
  by (relation "measure (\<lambda>(start, stop, step). nat (if 0 < step then stop - start else start - stop))")
     auto

declare py_range.simps [simp del]

subsection \<open>Double-precision arithmetic\<close>

text \<open>
  Python floats are IEEE 754 binary64 numbers. A finite double is a rational number, and every
  arithmetic operation returns the exact result rounded to the nearest double, ties to the even
  significand. \<open>fl\<close> is that rounding on the rationals: 53 significant bits, gradual underflow
  below \<open>2 ^ -1022\<close> (quantum \<open>2 ^ -1074\<close>). Overflow to infinity starts at \<open>2 ^ 1024\<close>; every
  value computed by the scripts is below \<open>2 ^ 10\<close> in magnitude, so infinities and NaNs are
  left out of the model.
\<close>

text \<open>\<^verbatim>\<open>int.bit_length\<close>: the number of binary digits of a positive integer.\<close>

function bit_length :: "int \<Rightarrow> int" where
  "bit_length n = (if n \<le> 0 then 0 else 1 + bit_length (n div 2))"
  by pat_completeness auto
termination
  by (relation "measure nat") auto

declare bit_length.simps [simp del]

definition pow2 :: "int \<Rightarrow> rat" where
  "pow2 k = (if 0 \<le> k then 2 ^ nat k else 1 / 2 ^ nat (- k))"

text \<open>\<open>ilog2 x\<close> is the exponent \<open>k\<close> with \<open>2 ^ k \<le> |x| < 2 ^ (k + 1)\<close>, for \<open>x \<noteq> 0\<close>.\<close>

definition ilog2 :: "rat \<Rightarrow> int" where
  "ilog2 x =
     (let k = bit_length (fst (quotient_of \<bar>x\<bar>)) - bit_length (snd (quotient_of \<bar>x\<bar>))
      in if pow2 k \<le> \<bar>x\<bar> then k else k - 1)"

text \<open>Rounding a rational to the nearest integer, ties to even.\<close>

definition rne :: "rat \<Rightarrow> int" where
  "rne q =
     (let f = \<lfloor>q\<rfloor>; d = q - of_int f
      in if d < 1 / 2 then f
         else if 1 / 2 < d then f + 1
         else if even f then f else f + 1)"

definition quantum_exp :: "rat \<Rightarrow> int" where
  "quantum_exp x = max (ilog2 x - 52) (- 1074)"

definition fl :: "rat \<Rightarrow> rat" where
  "fl x = (if x = 0 then 0 else of_int (rne (x / pow2 (quantum_exp x))) * pow2 (quantum_exp x))"

definition fadd :: "rat \<Rightarrow> rat \<Rightarrow> rat" where
  "fadd x y = fl (x + y)"

definition fsub :: "rat \<Rightarrow> rat \<Rightarrow> rat" where
  "fsub x y = fl (x - y)"

definition fmul :: "rat \<Rightarrow> rat \<Rightarrow> rat" where
  "fmul x y = fl (x * y)"

text \<open>
  \<^verbatim>\<open>a / b\<close> on two Python ints is the correctly rounded quotient of the exact integers.
\<close>

definition int_truediv :: "int \<Rightarrow> int \<Rightarrow> rat" where
  "int_truediv a b = fl (of_int a / of_int b)"

text \<open>\<^verbatim>\<open>int(x)\<close> on a float truncates toward zero.\<close>

definition py_int :: "rat \<Rightarrow> int" where
  "py_int x = (if 0 \<le> x then \<lfloor>x\<rfloor> else \<lceil>x\<rceil>)"

text \<open>Python's \<^verbatim>\<open>round(x)\<close> on a float: nearest integer, ties to even.\<close>

definition py_round :: "rat \<Rightarrow> int" where
  "py_round x = rne x"

subsection \<open>Images\<close>

text \<open>
  A Pillow image is its size and its pixel grid. Pixels are \<^verbatim>\<open>RGB\<close> or \<^verbatim>\<open>RGBA\<close> tuples of
  Python ints; only the pixels inside the size are part of the image.
\<close>

type_synonym point = "int \<times> int"
type_synonym rgb = "int \<times> int \<times> int"
type_synonym rgba = "int \<times> int \<times> int \<times> int"

record 'p image =
  isize :: "int \<times> int"
  pix :: "point \<Rightarrow> 'p"

datatype py_error = OSError | ValueError

definition image_new :: "int \<times> int \<Rightarrow> 'p \<Rightarrow> 'p image" where
  "image_new sz c = \<lparr>isize = sz, pix = (\<lambda>p. c)\<rparr>"

definition in_bounds :: "'p image \<Rightarrow> point \<Rightarrow> bool" where
  "in_bounds im p =
     (0 \<le> fst p \<and> fst p < fst (isize im) \<and> 0 \<le> snd p \<and> snd p < snd (isize im))"

text \<open>
  \<^verbatim>\<open>ImageDraw.line\<close> with the default width, for a segment parallel to an axis (the only
  kind \<^verbatim>\<open>create_gradient\<close> draws): every pixel of the segment, both end points included,
  is painted, and what falls outside the image is clipped.
\<close>

definition on_segment :: "point \<Rightarrow> point \<Rightarrow> point \<Rightarrow> bool" where
  "on_segment p0 p1 p =
     ((snd p0 = snd p1 \<and> snd p = snd p0 \<and> min (fst p0) (fst p1) \<le> fst p \<and> fst p \<le> max (fst p0) (fst p1))
      \<or> (fst p0 = fst p1 \<and> fst p = fst p0 \<and> min (snd p0) (snd p1) \<le> snd p \<and> snd p \<le> max (snd p0) (snd p1)))"

definition draw_line :: "'p image \<Rightarrow> point \<Rightarrow> point \<Rightarrow> 'p \<Rightarrow> 'p image" where
  "draw_line im p0 p1 fill =
     im\<lparr>pix := (\<lambda>p. if in_bounds im p \<and> on_segment p0 p1 p then fill else pix im p)\<rparr>"

text \<open>
  \<^verbatim>\<open>ImageDraw.ellipse\<close> with a fill: the pixels the rasteriser covers for the bounding box
  \<open>(p0, p1)\<close> take the fill colour. Which pixels those are is Pillow's rasteriser, passed in
  as \<open>covers\<close>.
\<close>

definition draw_ellipse ::
  "(point \<Rightarrow> point \<Rightarrow> point \<Rightarrow> bool) \<Rightarrow> 'p image \<Rightarrow> point \<Rightarrow> point \<Rightarrow> 'p \<Rightarrow> 'p image" where
  "draw_ellipse covers im p0 p1 fill =
     im\<lparr>pix := (\<lambda>p. if in_bounds im p \<and> covers p0 p1 p then fill else pix im p)\<rparr>"

text \<open>\<^verbatim>\<open>convert('RGBA')\<close> adds a fully opaque alpha channel, \<^verbatim>\<open>convert('RGB')\<close> drops it.\<close>

definition add_alpha :: "rgb \<Rightarrow> rgba" where
  "add_alpha c = (fst c, fst (snd c), snd (snd c), 255)"

definition drop_alpha :: "rgba \<Rightarrow> rgb" where
  "drop_alpha c = (fst c, fst (snd c), fst (snd (snd c)))"

definition convert_RGBA :: "rgb image \<Rightarrow> rgba image" where
  "convert_RGBA im = \<lparr>isize = isize im, pix = (\<lambda>p. add_alpha (pix im p))\<rparr>"

definition convert_RGB :: "rgba image \<Rightarrow> rgb image" where
  "convert_RGB im = \<lparr>isize = isize im, pix = (\<lambda>p. drop_alpha (pix im p))\<rparr>"

text \<open>
  \<^verbatim>\<open>Image.alpha_composite(im1, im2)\<close> blends \<open>im2\<close> over \<open>im1\<close> pixel by pixel and raises
  \<^verbatim>\<open>ValueError\<close> when the sizes differ. The per-pixel blend is Pillow's, passed in as \<open>blend\<close>
  (first argument the pixel below, second the pixel on top).
\<close>

definition alpha_composite ::
  "(rgba \<Rightarrow> rgba \<Rightarrow> rgba) \<Rightarrow> rgba image \<Rightarrow> rgba image \<Rightarrow> py_error + rgba image" where
  "alpha_composite blend im1 im2 =
     (if isize im1 \<noteq> isize im2 then Inl ValueError
      else Inr \<lparr>isize = isize im1, pix = (\<lambda>p. blend (pix im1 p) (pix im2 p))\<rparr>)"

text \<open>
  Concrete instances of the two Pillow parameters, for evaluating the model: the integer blend
  of Pillow's alpha compositing (7 bits of precision, division by 255 by shifts), and the
  filled ellipse inscribed in the bounding box.
\<close>

definition shift_for_div255 :: "int \<Rightarrow> int" where
  "shift_for_div255 a = ((a div 256) + a) div 256"

definition pil_blend_channel :: "int \<Rightarrow> int \<Rightarrow> int \<Rightarrow> int \<Rightarrow> int" where
  "pil_blend_channel coef1 coef2 d s = shift_for_div255 (s * coef1 + d * coef2 + 128 * 128) div 128"

definition pil_blend :: "rgba \<Rightarrow> rgba \<Rightarrow> rgba" where
  "pil_blend dst src =
     (case dst of (dr, dg, db, da) \<Rightarrow>
      case src of (sr, sg, sb, sa) \<Rightarrow>
        if sa = 0 then dst
        else
          let blend = da * (255 - sa);
              outa255 = sa * 255 + blend;
              coef1 = sa * 255 * 255 * 128 div outa255;
              coef2 = 255 * 128 - coef1
          in (pil_blend_channel coef1 coef2 dr sr,
              pil_blend_channel coef1 coef2 dg sg,
              pil_blend_channel coef1 coef2 db sb,
              shift_for_div255 (outa255 + 128)))"

definition inscribed_ellipse :: "point \<Rightarrow> point \<Rightarrow> point \<Rightarrow> bool" where
  "inscribed_ellipse p0 p1 p =
     (let w = fst p1 - fst p0; h = snd p1 - snd p0;
          dx = 2 * fst p - fst p0 - fst p1; dy = 2 * snd p - snd p0 - snd p1
      in dx * dx * (h * h) + dy * dy * (w * w) \<le> w * w * (h * h))"

section \<open>\<^verbatim>\<open>create_beautiful_icon.py\<close>\<close>

subsection \<open>\<^verbatim>\<open>create_gradient\<close>\<close>

text \<open>
  One channel of the colour of row (or column) \<open>i\<close>:
  \<^verbatim>\<open>int(color1[k] * (1 - ratio) + color2[k] * ratio)\<close>, in double arithmetic.
\<close>

definition gradient_channel :: "int \<Rightarrow> int \<Rightarrow> rat \<Rightarrow> int" where
  "gradient_channel a b ratio =
     py_int (fadd (fmul (of_int a) (fsub 1 ratio)) (fmul (of_int b) ratio))"

definition gradient_colour :: "rgb \<Rightarrow> rgb \<Rightarrow> rat \<Rightarrow> rgb" where
  "gradient_colour color1 color2 ratio =
     (gradient_channel (fst color1) (fst color2) ratio,
      gradient_channel (fst (snd color1)) (fst (snd color2)) ratio,
      gradient_channel (snd (snd color1)) (snd (snd color2)) ratio)"

text \<open>The body of the loop, for index \<open>i\<close>.\<close>

definition gradient_step :: "int \<Rightarrow> int \<Rightarrow> rgb \<Rightarrow> rgb \<Rightarrow> bool \<Rightarrow> rgb image \<Rightarrow> int \<Rightarrow> rgb image" where
  "gradient_step width height color1 color2 vertical img i =
     (let ratio = int_truediv i (if vertical then height else width);
          c = gradient_colour color1 color2 ratio
      in if vertical then draw_line img (0, i) (width, i) c
         else draw_line img (i, 0) (i, height) c)"

text \<open>
  \<^verbatim>\<open>Image.new('RGB', (width, height))\<close> is black; the loop runs over
  \<^verbatim>\<open>range(height if vertical else width)\<close>, that is \<open>0, \<dots>, extent - 1\<close>.
\<close>

definition create_gradient :: "int \<Rightarrow> int \<Rightarrow> rgb \<Rightarrow> rgb \<Rightarrow> bool \<Rightarrow> rgb image" where
  "create_gradient width height color1 color2 vertical =
     foldl (gradient_step width height color1 color2 vertical)
       (image_new (width, height) (0, 0, 0))
       [0 .. (if vertical then height else width) - 1]"

text \<open>
  The channel as the specification words it: \<open>round(c1 * (1 - t) + c2 * t)\<close> clamped to
  \<open>[0, 255]\<close>, with \<open>t = i / extent\<close>.
\<close>

definition spec_gradient_channel :: "int \<Rightarrow> int \<Rightarrow> int \<Rightarrow> int \<Rightarrow> int" where
  "spec_gradient_channel a b i extent =
     (let t = of_int i / of_int extent
      in max 0 (min 255 (py_round (of_int a * (1 - t) + of_int b * t))))"

subsection \<open>The outer glow of \<^verbatim>\<open>create_beautiful_app_icon\<close>\<close>

definition icon_size :: int where
  "icon_size = 512"

definition center_x :: int where
  "center_x = icon_size div 2"

definition center_y :: int where
  "center_y = icon_size div 2"

definition glow_radii :: "int list" where
  "glow_radii = py_range 220 150 (- 10)"

definition glow_alpha :: "int \<Rightarrow> int" where
  "glow_alpha radius = max 5 (30 - (220 - radius) div 10)"

text \<open>The translucent overlay of one iteration: a transparent image with one filled circle.\<close>

definition glow_overlay :: "(point \<Rightarrow> point \<Rightarrow> point \<Rightarrow> bool) \<Rightarrow> int \<Rightarrow> rgba image" where
  "glow_overlay covers radius =
     draw_ellipse covers (image_new (icon_size, icon_size) (0, 0, 0, 0))
       (center_x - radius, center_y - radius) (center_x + radius, center_y + radius)
       (59, 130, 246, glow_alpha radius)"

text \<open>
  The loop \<^verbatim>\<open>for radius in ...: bg = Image.alpha_composite(bg.convert('RGBA'), overlay).convert('RGB')\<close>
  over a list of radii.
\<close>

fun glow_loop ::
  "(point \<Rightarrow> point \<Rightarrow> point \<Rightarrow> bool) \<Rightarrow> (rgba \<Rightarrow> rgba \<Rightarrow> rgba) \<Rightarrow> rgb image \<Rightarrow> int list
     \<Rightarrow> py_error + rgb image" where
  "glow_loop covers blend bg [] = Inr bg"
| "glow_loop covers blend bg (radius # radii) =
     (case alpha_composite blend (convert_RGBA bg) (glow_overlay covers radius) of
        Inl e \<Rightarrow> Inl e
      | Inr im \<Rightarrow> glow_loop covers blend (convert_RGB im) radii)"

definition outer_glow ::
  "(point \<Rightarrow> point \<Rightarrow> point \<Rightarrow> bool) \<Rightarrow> (rgba \<Rightarrow> rgba \<Rightarrow> rgba) \<Rightarrow> rgb image \<Rightarrow> py_error + rgb image" where
  "outer_glow covers blend bg = glow_loop covers blend bg glow_radii"

subsection \<open>The bridge of \<^verbatim>\<open>create_beautiful_app_icon\<close>\<close>

definition book_width :: int where
  "book_width = 180"

definition book_height :: int where
  "book_height = 220"

definition book_x :: int where
  "book_x = center_x - book_width div 2"

definition book_y :: int where
  "book_y = center_y - book_height div 2 - 10"

definition bridge_y :: int where
  "bridge_y = book_y + book_height + 40"

text \<open>
  The body of \<^verbatim>\<open>for i in range(101)\<close>:
  \<^verbatim>\<open>x = book_x - 40 + i * (book_width + 80) / 100\<close>, \<^verbatim>\<open>t = (i - 50) / 50\<close>,
  \<^verbatim>\<open>y = bridge_y - 30 * (1 - t * t)\<close>.
\<close>

definition bridge_t :: "int \<Rightarrow> rat" where
  "bridge_t i = int_truediv (i - 50) 50"

definition bridge_point :: "int \<Rightarrow> rat \<times> rat" where
  "bridge_point i =
     (let x = fadd (of_int (book_x - 40)) (int_truediv (i * (book_width + 80)) 100);
          t = bridge_t i;
          y = fsub (of_int bridge_y) (fmul 30 (fsub 1 (fmul t t)))
      in (x, y))"

definition bridge_points :: "(rat \<times> rat) list" where
  "bridge_points = map bridge_point [0 .. 100]"

text \<open>
  The supports: \<^verbatim>\<open>x = book_x - 40 + pos * (book_width + 80)\<close> and
  \<^verbatim>\<open>y = bridge_y - 30 * (1 - (pos - 0.5) * 2) ** 2\<close>. In Python \<^verbatim>\<open>**\<close> binds tighter than
  \<^verbatim>\<open>*\<close>, so the square is taken of \<^verbatim>\<open>1 - (pos - 0.5) * 2\<close> and then multiplied by 30.
  \<^verbatim>\<open>v ** 2\<close> on a float is the C library's \<^verbatim>\<open>pow(v, 2.0)\<close>, taken here as the correctly
  rounded square. The strut is the line from \<open>(x, y)\<close> to \<open>(x, bridge_y + 30)\<close>.
\<close>

definition support_positions :: "rat list" where
  "support_positions = [1 / 4, 3 / 4]"

definition fsquare :: "rat \<Rightarrow> rat" where
  "fsquare x = fl (x * x)"

definition support_x :: "rat \<Rightarrow> rat" where
  "support_x pos = fadd (of_int (book_x - 40)) (fmul pos (of_int (book_width + 80)))"

definition support_y :: "rat \<Rightarrow> rat" where
  "support_y pos = fsub (of_int bridge_y) (fmul 30 (fsquare (fsub 1 (fmul (fsub pos (1 / 2)) 2))))"

definition support_strut :: "rat \<Rightarrow> (rat \<times> rat) \<times> (rat \<times> rat)" where
  "support_strut pos = ((support_x pos, support_y pos), (support_x pos, of_int (bridge_y + 30)))"

text \<open>
  The strut as the specification words it: its top lies on the curve, at the curve's value for
  \<open>t = 2 * (p - 0.5)\<close>.
\<close>

definition spec_support_top :: "rat \<Rightarrow> rat \<times> rat" where
  "spec_support_top p =
     (of_int (book_x - 40) + p * of_int (book_width + 80),
      of_int bridge_y - 30 * (1 - (2 * (p - 1 / 2)) ^ 2))"

subsection \<open>Fonts\<close>

text \<open>
  \<^verbatim>\<open>ImageFont.truetype(path, size)\<close> raises \<^verbatim>\<open>OSError\<close> when the font file cannot be opened;
  \<^verbatim>\<open>ImageFont.load_default()\<close> always returns the built-in font. The host environment is
  the predicate \<open>avail\<close> telling which font files can be opened.
\<close>

datatype font = FreeTypeFont string int | DefaultFont

definition HELVETICA :: string where
  "HELVETICA = ''/System/Library/Fonts/Helvetica.ttc''"

definition truetype :: "(string \<Rightarrow> bool) \<Rightarrow> string \<Rightarrow> int \<Rightarrow> py_error + font" where
  "truetype avail path sz = (if avail path then Inr (FreeTypeFont path sz) else Inl OSError)"

definition load_default :: font where
  "load_default = DefaultFont"

text \<open>
  The \<^verbatim>\<open>try: ... except: ...\<close> block that loads two fonts: when either load raises, both
  names are bound to the default font.
\<close>

definition load_font_pair :: "(string \<Rightarrow> bool) \<Rightarrow> int \<Rightarrow> int \<Rightarrow> font \<times> font" where
  "load_font_pair avail sz1 sz2 =
     (case truetype avail HELVETICA sz1 of
        Inl e \<Rightarrow> (load_default, load_default)
      | Inr f1 \<Rightarrow>
          (case truetype avail HELVETICA sz2 of
             Inl e \<Rightarrow> (load_default, load_default)
           | Inr f2 \<Rightarrow> (f1, f2)))"

text \<open>The fonts of \<^verbatim>\<open>create_beautiful_app_icon\<close> (sizes 32 and 18).\<close>

definition icon_fonts :: "(string \<Rightarrow> bool) \<Rightarrow> font \<times> font" where
  "icon_fonts avail = load_font_pair avail 32 18"

section \<open>\<^verbatim>\<open>create_app_assets.py\<close>\<close>

text \<open>
  The two routines of this script only issue drawing calls with literal arguments and save the
  result. A canvas is kept as its size, its background and the list of drawing calls made on
  it, in order; the world is the files saved and the lines printed.
\<close>

datatype draw_cmd =
    Rectangle "point \<times> point" string "string option" int
  | Arc "point \<times> point" int int string int
  | Ellipse "point \<times> point" string
  | Text point string string font

record canvas =
  csize :: "int \<times> int"
  cbackground :: string
  cmds :: "draw_cmd list"

record world =
  files :: "string \<rightharpoonup> canvas"
  stdout :: "string list"

definition canvas_new :: "int \<times> int \<Rightarrow> string \<Rightarrow> canvas" where
  "canvas_new sz bg = \<lparr>csize = sz, cbackground = bg, cmds = []\<rparr>"

definition draw :: "canvas \<Rightarrow> draw_cmd \<Rightarrow> canvas" where
  "draw img c = img\<lparr>cmds := cmds img @ [c]\<rparr>"

definition save :: "world \<Rightarrow> string \<Rightarrow> canvas \<Rightarrow> world" where
  "save w name img = w\<lparr>files := (files w)(name \<mapsto> img)\<rparr>"

definition print :: "world \<Rightarrow> string \<Rightarrow> world" where
  "print w line = w\<lparr>stdout := stdout w @ [line]\<rparr>"

definition DARK_SLATE :: string where
  "DARK_SLATE = ''#0f172a''"

definition WHITE :: string where
  "WHITE = ''#ffffff''"

definition ACCENT_BLUE :: string where
  "ACCENT_BLUE = ''#3b82f6''"

definition LIGHT_GRAY :: string where
  "LIGHT_GRAY = ''#e2e8f0''"

text \<open>
  \<^verbatim>\<open>create_app_icon\<close>. \<open>textbbox\<close> is Pillow's text measurement for a font and a string
  (left, top, right, bottom).
\<close>

definition create_app_icon ::
  "(string \<Rightarrow> bool) \<Rightarrow> (font \<Rightarrow> string \<Rightarrow> int \<times> int \<times> int \<times> int) \<Rightarrow> world \<Rightarrow> py_error + world" where
  "create_app_icon avail textbbox w =
     (let img = canvas_new (512, 512) DARK_SLATE;
          book_width = 200;
          book_height = 260;
          book_x = (512 - book_width) div 2;
          book_y = (512 - book_height) div 2 - 20;
          img = draw img (Rectangle ((book_x, book_y), (book_x + book_width, book_y + book_height))
                  ACCENT_BLUE (Some WHITE) 4);
          spine_width = 20;
          img = draw img (Rectangle ((book_x, book_y), (book_x + spine_width, book_y + book_height))
                  ''#2563eb'' None 1);
          arc_y = book_y + book_height - 40;
          img = draw img (Arc ((book_x - 30, arc_y - 60), (book_x + book_width + 30, arc_y + 60))
                  200 340 WHITE 8);
          font = (case truetype avail HELVETICA 120 of Inr f \<Rightarrow> f | Inl e \<Rightarrow> load_default);
          text = ''BB'';
          bbox = textbbox font text;
          text_width = fst (snd (snd bbox)) - fst bbox;
          text_height = snd (snd (snd bbox)) - fst (snd bbox);
          text_x = book_x + (book_width - text_width) div 2;
          text_y = book_y + (book_height - text_height) div 2 - 20;
          img = draw img (Text (text_x, text_y) text WHITE font);
          w = save w ''app_icon_512x512.png'' img
      in Inr (print w ''Created app_icon_512x512.png''))"

text \<open>
  \<^verbatim>\<open>create_feature_graphic\<close>. The loop over \<^verbatim>\<open>enumerate(book_colors)\<close> cannot raise; the
  loop over the features loads a font in every iteration, outside any \<^verbatim>\<open>try\<close>.
\<close>

definition draw_book :: "canvas \<Rightarrow> int \<times> string \<Rightarrow> canvas" where
  "draw_book img ic =
     (let i = fst ic; color = snd ic; x = 50 + i * 40; y = 150 + i * 10
      in draw img (Rectangle ((x, y), (x + 30, y + 200)) color (Some WHITE) 2))"

fun draw_features :: "(string \<Rightarrow> bool) \<Rightarrow> canvas \<Rightarrow> int \<Rightarrow> string list \<Rightarrow> py_error + canvas" where
  "draw_features avail img feature_y [] = Inr img"
| "draw_features avail img feature_y (feature # features) =
     (let img = draw img (Ellipse ((350, feature_y), (360, feature_y + 10)) ACCENT_BLUE)
      in case truetype avail HELVETICA 24 of
           Inl e \<Rightarrow> Inl e
         | Inr f \<Rightarrow>
             draw_features avail (draw img (Text (380, feature_y - 5) feature LIGHT_GRAY f))
               (feature_y + 40) features)"

definition create_feature_graphic :: "(string \<Rightarrow> bool) \<Rightarrow> world \<Rightarrow> py_error + world" where
  "create_feature_graphic avail w =
     (let img = canvas_new (1024, 500) DARK_SLATE;
          book_colors = [ACCENT_BLUE, ''#8b5cf6'', ''#10b981'', ''#f59e0b''];
          img = foldl draw_book img (zip [0 .. 3] book_colors);
          fonts = load_font_pair avail 80 36;
          title_font = fst fonts;
          subtitle_font = snd fonts;
          img = draw img (Text (350, 150) ''BookBridge'' WHITE title_font);
          img = draw img (Text (350, 250) ''Classic Literature Made Accessible'' LIGHT_GRAY subtitle_font);
          features = [''AI-Powered Text Simplification'', ''Professional Audio Narration'',
                      ''Interactive Learning Tools'']
      in case draw_features avail img 320 features of
           Inl e \<Rightarrow> Inl e
         | Inr img \<Rightarrow>
             (let bridge_x = 800;
                  bridge_y = 250;
                  img = draw img (Arc ((bridge_x, bridge_y - 100), (bridge_x + 150, bridge_y + 100))
                          200 340 ACCENT_BLUE 6);
                  w = save w ''feature_graphic_1024x500.png'' img
              in Inr (print w ''Created feature_graphic_1024x500.png'')))"

text \<open>The pixel dimensions of a file the run has saved, if it saved one.\<close>

definition saved_size :: "py_error + world \<Rightarrow> string \<Rightarrow> (int \<times> int) option" where
  "saved_size r name =
     (case r of Inl e \<Rightarrow> None | Inr w \<Rightarrow> map_option csize (files w name))"

section \<open>Properties of the outer glow\<close>

lemma glow_radii_eq: "glow_radii = [220, 210, 200, 190, 180, 170, 160]"
  by (simp add: glow_radii_def py_range.simps)

lemma glow_alphas_eq: "map glow_alpha glow_radii = [30, 29, 28, 27, 26, 25, 24]"
  by (simp add: glow_radii_eq glow_alpha_def)

text \<open>
  Claim C10. For every radius of \<^verbatim>\<open>range(220, 150, -10)\<close> the value
  \<^verbatim>\<open>30 - (220 - radius) // 10\<close> lies in \<open>[23, 30]\<close>; it is what \<^verbatim>\<open>max(5, ...)\<close> selects, and
  the floor 5 is never the alpha of a layer.
\<close>

theorem glow_alpha_floor_unreachable:
  "\<forall>radius \<in> set glow_radii.
     23 \<le> 30 - (220 - radius) div 10 \<and> 30 - (220 - radius) div 10 \<le> 30
     \<and> glow_alpha radius = 30 - (220 - radius) div 10 \<and> glow_alpha radius \<noteq> 5"
  by (simp add: glow_radii_eq glow_alpha_def)

theorem glow_alpha_floor_unreachable_witness:
  "(160::int) \<in> set glow_radii
   \<and> (23 \<le> 30 - (220 - (160::int)) div 10 \<and> 30 - (220 - (160::int)) div 10 \<le> 30
      \<and> glow_alpha 160 = 30 - (220 - 160) div 10 \<and> glow_alpha 160 \<noteq> 5)"
proof (rule conjI)
  show m: "(160::int) \<in> set glow_radii"
    by (simp add: glow_radii_eq)
  show "23 \<le> 30 - (220 - (160::int)) div 10 \<and> 30 - (220 - (160::int)) div 10 \<le> 30
      \<and> glow_alpha 160 = 30 - (220 - 160) div 10 \<and> glow_alpha 160 \<noteq> 5"
    by (rule bspec [OF glow_alpha_floor_unreachable m])
qed

lemma isize_glow_overlay: "isize (glow_overlay covers radius) = (icon_size, icon_size)"
  by (simp add: glow_overlay_def draw_ellipse_def image_new_def)

lemma glow_loop_total:
  "isize bg = (icon_size, icon_size) \<Longrightarrow>
   \<exists>im. glow_loop covers blend bg radii = Inr im \<and> isize im = (icon_size, icon_size)"
proof (induction radii arbitrary: bg)
  case Nil
  then show ?case by simp
next
  case (Cons radius radii)
  let ?im = "\<lparr>isize = isize (convert_RGBA bg),
              pix = (\<lambda>p. blend (pix (convert_RGBA bg) p) (pix (glow_overlay covers radius) p))\<rparr>"
  have step: "alpha_composite blend (convert_RGBA bg) (glow_overlay covers radius) = Inr ?im"
    using Cons.prems by (simp add: alpha_composite_def isize_glow_overlay convert_RGBA_def)
  have "isize (convert_RGB ?im) = (icon_size, icon_size)"
    using Cons.prems by (simp add: convert_RGB_def convert_RGBA_def)
  from Cons.IH [OF this] step show ?case by simp
qed

lemma glow_loop_snoc:
  "glow_loop covers blend bg (radii @ [radius]) =
     (case glow_loop covers blend bg radii of
        Inl e \<Rightarrow> Inl e
      | Inr acc \<Rightarrow> glow_loop covers blend acc [radius])"
  by (induction radii arbitrary: bg) (simp_all split: sum.splits)

lemma glow_last_layer:
  assumes sz: "isize acc = (icon_size, icon_size)"
    and inb: "in_bounds acc p"
    and cov: "covers (center_x - radius, center_y - radius) (center_x + radius, center_y + radius) p"
  shows "\<exists>final. glow_loop covers blend acc [radius] = Inr final
           \<and> pix final p = drop_alpha (blend (add_alpha (pix acc p)) (59, 130, 246, glow_alpha radius))"
  using assms
  by (simp add: alpha_composite_def isize_glow_overlay convert_RGBA_def convert_RGB_def
      glow_overlay_def draw_ellipse_def image_new_def in_bounds_def)

text \<open>
  Claim C2, as the code has it. The layers are composited from the largest radius to the
  smallest, and the alpha falls from 30 (radius 220) to 24 (radius 160): the last layer is the
  smallest and the faintest one. For a canvas of the icon's size, and a rasteriser that covers
  the centre of each circle, the loop raises nothing, and the centre pixel after the loop is the
  blend of that last layer, \<open>(59, 130, 246, 24)\<close>, over the centre pixel accumulated from the six
  larger layers.
\<close>

theorem glow_centre_last_layer:
  assumes sz: "isize bg = (icon_size, icon_size)"
    and cov: "\<forall>radius \<in> set glow_radii.
      covers (center_x - radius, center_y - radius) (center_x + radius, center_y + radius)
        (center_x, center_y)"
  shows "glow_radii = [220, 210, 200, 190, 180, 170, 160]
    \<and> map glow_alpha glow_radii = [30, 29, 28, 27, 26, 25, 24]
    \<and> (\<exists>acc final.
          glow_loop covers blend bg (butlast glow_radii) = Inr acc
        \<and> outer_glow covers blend bg = Inr final
        \<and> pix final (center_x, center_y) =
            drop_alpha (blend (add_alpha (pix acc (center_x, center_y)))
              (59, 130, 246, glow_alpha (last glow_radii))))"
proof -
  from glow_loop_total [OF sz, of covers blend "butlast glow_radii"]
  obtain acc where acc: "glow_loop covers blend bg (butlast glow_radii) = Inr acc"
    and accsz: "isize acc = (icon_size, icon_size)" by blast
  have inb: "in_bounds acc (center_x, center_y)"
    by (simp add: in_bounds_def accsz center_x_def center_y_def icon_size_def)
  have c: "covers (center_x - last glow_radii, center_y - last glow_radii)
             (center_x + last glow_radii, center_y + last glow_radii) (center_x, center_y)"
    using cov by (simp add: glow_radii_eq)
  from glow_last_layer [where covers = covers and radius = "last glow_radii" and blend = blend,
      OF accsz inb c]
  obtain final where fin: "glow_loop covers blend acc [last glow_radii] = Inr final"
    and px: "pix final (center_x, center_y) =
       drop_alpha (blend (add_alpha (pix acc (center_x, center_y)))
         (59, 130, 246, glow_alpha (last glow_radii)))" by blast
  have split: "glow_radii = butlast glow_radii @ [last glow_radii]"
    by (simp add: glow_radii_eq)
  have "outer_glow covers blend bg = glow_loop covers blend bg (butlast glow_radii @ [last glow_radii])"
    unfolding outer_glow_def using split by simp
  also have "\<dots> = Inr final"
    by (simp only: glow_loop_snoc acc fin sum.case)
  finally have og: "outer_glow covers blend bg = Inr final" .
  from acc og px show ?thesis
    using glow_radii_eq glow_alphas_eq by blast
qed

theorem glow_centre_last_layer_witness:
  "isize (image_new (icon_size, icon_size) (15, 23, 42) :: rgb image) = (icon_size, icon_size)
   \<and> list_all (\<lambda>radius. inscribed_ellipse (center_x - radius, center_y - radius)
         (center_x + radius, center_y + radius) (center_x, center_y)) glow_radii
   \<and> (\<exists>acc final.
          glow_loop inscribed_ellipse pil_blend (image_new (icon_size, icon_size) (15, 23, 42))
            (butlast glow_radii) = Inr acc
        \<and> outer_glow inscribed_ellipse pil_blend (image_new (icon_size, icon_size) (15, 23, 42))
            = Inr final
        \<and> pix final (center_x, center_y) =
            drop_alpha (pil_blend (add_alpha (pix acc (center_x, center_y))) (59, 130, 246, 24)))"
proof -
  have h1: "isize (image_new (icon_size, icon_size) (15, 23, 42) :: rgb image) = (icon_size, icon_size)"
    by (simp add: image_new_def)
  have h2: "\<forall>radius \<in> set glow_radii.
      inscribed_ellipse (center_x - radius, center_y - radius) (center_x + radius, center_y + radius)
        (center_x, center_y)"
    by (simp add: glow_radii_eq inscribed_ellipse_def center_x_def center_y_def icon_size_def)
  have a: "glow_alpha (last glow_radii) = 24"
    by (simp add: glow_radii_eq glow_alpha_def)
  from glow_centre_last_layer [where covers = inscribed_ellipse and blend = pil_blend, OF h1 h2]
  show ?thesis
    using h1 h2 by (simp add: a list_all_iff)
qed

text \<open>
  Claim C2 as stated fails: the smallest radius, composited last, does not carry the highest
  alpha; the largest radius does.
\<close>

theorem glow_smallest_is_faintest:
  "last glow_radii = 160 \<and> 220 \<in> set glow_radii \<and> \<not> glow_alpha 220 \<le> glow_alpha (last glow_radii)"
  by (simp add: glow_radii_eq glow_alpha_def)

section \<open>Properties of the bridge supports\<close>

text \<open>
  Claim C3, at the code. The strut at \<open>pos = 0.25\<close> starts at \<open>(191, 328.5)\<close> and the one at
  \<open>pos = 0.75\<close> at \<open>(321, 388.5)\<close>, both ending on the baseline \<open>y = 426\<close>; the curve passes
  through \<open>(191, 373.5)\<close> and \<open>(321, 373.5)\<close> (samples 25 and 75), which is where the
  specification puts the tops.
\<close>

theorem support_strut_off_curve:
  "support_strut (1 / 4) = ((191, 657 / 2), (191, 426))
   \<and> support_strut (3 / 4) = ((321, 777 / 2), (321, 426))
   \<and> spec_support_top (1 / 4) = (191, 747 / 2)
   \<and> spec_support_top (3 / 4) = (321, 747 / 2)
   \<and> bridge_point 25 = (191, 747 / 2)
   \<and> bridge_point 75 = (321, 747 / 2)"
  by code_simp

theorem support_strut_off_curve_witness:
  "fst (support_strut (1 / 4)) \<noteq> spec_support_top (1 / 4)
   \<and> fst (support_strut (3 / 4)) \<noteq> spec_support_top (3 / 4)"
  using support_strut_off_curve by simp

section \<open>Properties of the font handling\<close>

lemma csize_draw: "csize (draw img c) = csize img"
  by (simp add: draw_def)

lemma csize_draw_book: "csize (draw_book img ic) = csize img"
  by (simp add: draw_book_def Let_def csize_draw)

lemma csize_foldl_draw_book: "csize (foldl draw_book img ics) = csize img"
  by (induction ics arbitrary: img) (simp_all add: csize_draw_book)

lemma draw_features_unavailable:
  "\<not> avail HELVETICA \<Longrightarrow> features \<noteq> [] \<Longrightarrow> draw_features avail img y features = Inl OSError"
  by (cases features) (simp_all add: truetype_def Let_def)

lemma draw_features_available:
  "avail HELVETICA \<Longrightarrow> \<exists>img'. draw_features avail img y features = Inr img' \<and> csize img' = csize img"
proof (induction features arbitrary: img y)
  case Nil
  show ?case by simp
next
  case (Cons feature features)
  let ?img1 = "draw (draw img (Ellipse ((350, y), (360, y + 10)) ACCENT_BLUE))
                 (Text (380, y - 5) feature LIGHT_GRAY (FreeTypeFont HELVETICA 24))"
  from Cons.IH [OF Cons.prems, of ?img1 "y + 40"]
  obtain img' where "draw_features avail ?img1 (y + 40) features = Inr img'"
    and "csize img' = csize ?img1" by blast
  with Cons.prems show ?case
    by (simp add: truetype_def Let_def csize_draw)
qed

text \<open>
  Claim C4, at the code. With no font file available, \<^verbatim>\<open>create_app_icon\<close> returns normally
  and the font pair of \<^verbatim>\<open>create_beautiful_app_icon\<close> falls back to the default font, but
  \<^verbatim>\<open>create_feature_graphic\<close> raises \<^verbatim>\<open>OSError\<close>: the font load inside its feature loop is
  outside every \<^verbatim>\<open>try\<close>.
\<close>

theorem feature_graphic_font_load_unguarded:
  "(\<exists>w'. create_app_icon (\<lambda>p. False) textbbox w = Inr w')
   \<and> icon_fonts (\<lambda>p. False) = (DefaultFont, DefaultFont)
   \<and> create_feature_graphic (\<lambda>p. False) w = Inl OSError"
  by (simp add: create_app_icon_def create_feature_graphic_def icon_fonts_def load_font_pair_def
      truetype_def load_default_def Let_def)

theorem feature_graphic_font_load_unguarded_witness:
  "create_feature_graphic (\<lambda>p. False) \<lparr>files = Map.empty, stdout = []\<rparr> = Inl OSError"
  using feature_graphic_font_load_unguarded [of "\<lambda>f s. (0, 0, 0, 0)" "\<lparr>files = Map.empty, stdout = []\<rparr>"]
  by simp

text \<open>
  Claim C5, at the code. The run saves a 1024 by 500 image exactly when the Helvetica file can
  be opened; when it cannot, nothing is saved.
\<close>

theorem feature_graphic_saved_size: "saved_size (create_feature_graphic avail w) ''feature_graphic_1024x500.png'' =
   (if avail HELVETICA then Some (1024, 500) else None)"
proof (cases "avail HELVETICA")
  case True
  show ?thesis
  proof -
    let ?img0 = "draw (draw (foldl draw_book (canvas_new (1024, 500) DARK_SLATE)
             (zip [0 .. 3] [ACCENT_BLUE, ''#8b5cf6'', ''#10b981'', ''#f59e0b'']))
             (Text (350, 150) ''BookBridge'' WHITE (fst (load_font_pair avail 80 36))))
             (Text (350, 250) ''Classic Literature Made Accessible'' LIGHT_GRAY (snd (load_font_pair avail 80 36)))"
    let ?fs = "[''AI-Powered Text Simplification'', ''Professional Audio Narration'',
                      ''Interactive Learning Tools'']"
    from draw_features_available [of avail, OF True, of ?img0 320 ?fs]
    obtain img' where r: "draw_features avail ?img0 320 ?fs = Inr img'"
      and sz: "csize img' = csize ?img0" by blast
    have "csize ?img0 = (1024, 500)"
      by (simp add: csize_draw csize_foldl_draw_book canvas_new_def)
    with sz have "csize img' = (1024, 500)" by simp
    then show ?thesis
      using True r
      by (simp add: create_feature_graphic_def Let_def saved_size_def save_def print_def csize_draw)
  qed
next
  case False
  then show ?thesis
    by (simp add: create_feature_graphic_def Let_def saved_size_def truetype_def)
qed
theorem feature_graphic_saved_size_witness:
  "saved_size (create_feature_graphic (\<lambda>p. False) \<lparr>files = Map.empty, stdout = []\<rparr>)
     ''feature_graphic_1024x500.png'' = None
   \<and> saved_size (create_feature_graphic (\<lambda>p. True) \<lparr>files = Map.empty, stdout = []\<rparr>)
     ''feature_graphic_1024x500.png'' = Some (1024, 500)"
  using feature_graphic_saved_size [of "\<lambda>p. False" "\<lparr>files = Map.empty, stdout = []\<rparr>"]
    feature_graphic_saved_size [of "\<lambda>p. True" "\<lparr>files = Map.empty, stdout = []\<rparr>"]
  by simp

section \<open>Rounding to double precision\<close>

lemma pow2_powi: "pow2 k = 2 powi k"
  by (simp add: pow2_def power_int_def field_simps)

lemma pow2_pos [simp]: "0 < pow2 k"
  by (simp add: pow2_def)

lemma pow2_add: "pow2 (a + b) = pow2 a * pow2 b"
  by (simp add: pow2_powi power_int_add)

lemma pow2_mono: "a \<le> b \<Longrightarrow> pow2 a \<le> pow2 b"
  by (simp add: pow2_powi power_int_increasing)

lemma pow2_strict_mono: "a < b \<Longrightarrow> pow2 a < pow2 b"
  by (simp add: pow2_powi power_int_strict_increasing)

lemma pow2_0 [simp]: "pow2 0 = 1"
  by (simp add: pow2_def)

lemma pow2_1 [simp]: "pow2 1 = 2"
  by (simp add: pow2_def)

lemma pow2_Suc: "pow2 (k + 1) = 2 * pow2 k"
  by (simp add: pow2_add)

lemma pow2_of_nat: "0 \<le> k \<Longrightarrow> pow2 k = of_int (2 ^ nat k)"
  by (simp add: pow2_def)

lemma bit_length_nonneg: "0 \<le> bit_length n"
proof (induction n rule: bit_length.induct)
  case (1 n)
  show ?case
  proof (cases "n \<le> 0")
    case True
    then show ?thesis by (subst bit_length.simps) simp
  next
    case False
    with "1.IH" have "0 \<le> bit_length (n div 2)" by simp
    with False show ?thesis by (subst bit_length.simps) simp
  qed
qed

lemma bit_length_pos: "0 < n \<Longrightarrow> 0 < bit_length n"
  using bit_length_nonneg [of "n div 2"] by (subst bit_length.simps) simp

lemma bit_length_bounds_int:
  "0 < n \<Longrightarrow> 2 ^ nat (bit_length n - 1) \<le> n \<and> n < 2 ^ nat (bit_length n)"
proof (induction n rule: bit_length.induct)
  case (1 n)
  show ?case
  proof (cases "n = 1")
    case True
    then show ?thesis by (simp add: bit_length.simps)
  next
    case False
    with "1.prems" have pos: "0 < n div 2" by simp
    from "1.IH" pos "1.prems"
    have ih: "2 ^ nat (bit_length (n div 2) - 1) \<le> n div 2" "n div 2 < 2 ^ nat (bit_length (n div 2))"
      by simp_all
    have b: "bit_length n = 1 + bit_length (n div 2)"
      using "1.prems" by (subst bit_length.simps) simp
    have bp: "0 < bit_length (n div 2)" using pos by (rule bit_length_pos)
    then have e: "nat (bit_length (n div 2)) = Suc (nat (bit_length (n div 2) - 1))" by simp
    have "2 ^ nat (bit_length n - 1) = (2::int) ^ nat (bit_length (n div 2))"
      by (simp add: b)
    also have "\<dots> = 2 * 2 ^ nat (bit_length (n div 2) - 1)"
      by (subst e) simp
    also have "\<dots> \<le> 2 * (n div 2)" using ih(1) by simp
    also have "\<dots> \<le> n" by simp
    finally have lo: "2 ^ nat (bit_length n - 1) \<le> n" .
    have "n < 2 * (n div 2 + 1)" by simp
    also have "\<dots> \<le> 2 * 2 ^ nat (bit_length (n div 2))" using ih(2) by simp
    also have "\<dots> = 2 ^ nat (bit_length n)"
      using bp by (simp add: b nat_add_distrib)
    finally show ?thesis using lo by simp
  qed
qed

lemma bit_length_bounds:
  assumes "0 < n"
  shows "pow2 (bit_length n - 1) \<le> of_int n" and "of_int n < pow2 (bit_length n)"
proof -
  from bit_length_pos [OF assms] have p: "0 \<le> bit_length n - 1" "0 \<le> bit_length n" by simp_all
  from bit_length_bounds_int [OF assms]
  have a: "2 ^ nat (bit_length n - 1) \<le> n" and b: "n < 2 ^ nat (bit_length n)" by simp_all
  from a have "(of_int (2 ^ nat (bit_length n - 1)) :: rat) \<le> of_int n"
    by (simp only: of_int_le_iff)
  then show "pow2 (bit_length n - 1) \<le> of_int n"
    by (simp add: pow2_of_nat [OF p(1)])
  from b have "(of_int n :: rat) < of_int (2 ^ nat (bit_length n))"
    by (simp only: of_int_less_iff)
  then show "of_int n < pow2 (bit_length n)"
    by (simp add: pow2_of_nat [OF p(2)])
qed

lemma quotient_of_pos:
  assumes "0 < (r::rat)"
  shows "0 < fst (quotient_of r)" and "0 < snd (quotient_of r)"
    and "r = of_int (fst (quotient_of r)) / of_int (snd (quotient_of r))"
proof -
  obtain p q where pq: "quotient_of r = (p, q)" by (cases "quotient_of r")
  then have q: "0 < q" by (rule quotient_of_denom_pos)
  from pq have r: "r = of_int p / of_int q" by (rule quotient_of_div)
  with assms q have "0 < p"
    by (simp add: zero_less_divide_iff)
  with q r pq show "0 < fst (quotient_of r)" "0 < snd (quotient_of r)"
    "r = of_int (fst (quotient_of r)) / of_int (snd (quotient_of r))" by simp_all
qed

lemma ilog2_bounds:
  assumes "x \<noteq> 0"
  shows "pow2 (ilog2 x) \<le> \<bar>x\<bar>" and "\<bar>x\<bar> < pow2 (ilog2 x + 1)"
proof -
  define p where "p = fst (quotient_of \<bar>x\<bar>)"
  define q where "q = snd (quotient_of \<bar>x\<bar>)"
  define k where "k = bit_length p - bit_length q"
  from assms have ax: "0 < \<bar>x\<bar>" by simp
  from quotient_of_pos [OF ax] have p: "0 < p" and q: "0 < q"
    and x: "\<bar>x\<bar> = of_int p / of_int q" by (simp_all add: p_def q_def)
  have qr: "(0::rat) < of_int q" using q by simp
  note bp = bit_length_bounds [OF p] and bq = bit_length_bounds [OF q]
  have il: "ilog2 x = (if pow2 k \<le> \<bar>x\<bar> then k else k - 1)"
    by (simp add: ilog2_def Let_def k_def p_def q_def)
  have up: "\<bar>x\<bar> < pow2 (k + 1)"
  proof -
    have "of_int p < pow2 (bit_length p)" by (rule bp(2))
    also have "\<dots> = pow2 (k + 1) * pow2 (bit_length q - 1)"
      by (simp add: pow2_add [symmetric] k_def)
    also have "\<dots> \<le> pow2 (k + 1) * of_int q"
      using bq(1) by (simp add: mult_left_mono)
    finally show ?thesis using qr by (simp add: x pos_divide_less_eq)
  qed
  have lo: "pow2 (k - 1) \<le> \<bar>x\<bar>"
  proof -
    have "pow2 (k - 1) * of_int q \<le> pow2 (k - 1) * pow2 (bit_length q)"
      using bq(2) by (simp add: mult_left_mono)
    also have "\<dots> = pow2 (bit_length p - 1)"
      by (simp add: pow2_add [symmetric] k_def)
    also have "\<dots> \<le> of_int p" by (rule bp(1))
    finally show ?thesis using qr by (simp add: x pos_le_divide_eq)
  qed
  show "pow2 (ilog2 x) \<le> \<bar>x\<bar>" using lo by (simp add: il)
  show "\<bar>x\<bar> < pow2 (ilog2 x + 1)" using up by (simp add: il not_le)
qed

lemma ilog2_less:
  assumes "x \<noteq> 0" and "\<bar>x\<bar> < pow2 n"
  shows "ilog2 x < n"
proof (rule ccontr)
  assume "\<not> ilog2 x < n"
  then have "pow2 n \<le> pow2 (ilog2 x)" by (simp add: pow2_mono)
  also have "\<dots> \<le> \<bar>x\<bar>" by (rule ilog2_bounds(1) [OF assms(1)])
  finally show False using assms(2) by simp
qed

lemma ilog2_minus [simp]: "ilog2 (- x) = ilog2 x"
  by (simp add: ilog2_def)

lemma rne_of_int [simp]: "rne (of_int n) = n"
  by (simp add: rne_def)

lemma rne_cases:
  "rne q = \<lfloor>q\<rfloor> \<and> q - of_int \<lfloor>q\<rfloor> \<le> 1 / 2 \<or> rne q = \<lfloor>q\<rfloor> + 1 \<and> 1 / 2 \<le> q - of_int \<lfloor>q\<rfloor>"
  by (auto simp add: rne_def Let_def)

lemma rne_error: "\<bar>of_int (rne q) - q\<bar> \<le> 1 / 2"
proof -
  have "of_int \<lfloor>q\<rfloor> \<le> q" "q < of_int \<lfloor>q\<rfloor> + 1" by linarith+
  with rne_cases [of q] show ?thesis by auto
qed

lemma rne_mono:
  assumes "q \<le> q'"
  shows "rne q \<le> rne q'"
proof (cases "\<lfloor>q\<rfloor> = \<lfloor>q'\<rfloor>")
  case True
  with assms show ?thesis
    by (auto simp add: rne_def Let_def)
next
  case False
  with assms have "\<lfloor>q\<rfloor> + 1 \<le> \<lfloor>q'\<rfloor>"
    using floor_mono [OF assms] by linarith
  moreover have "rne q \<le> \<lfloor>q\<rfloor> + 1" using rne_cases [of q] by auto
  moreover have "\<lfloor>q'\<rfloor> \<le> rne q'" using rne_cases [of q'] by auto
  ultimately show ?thesis by linarith
qed

lemma rne_nonneg: "0 \<le> q \<Longrightarrow> 0 \<le> rne q"
  using rne_mono [of 0 q] rne_of_int [of 0] by simp

lemma rne_minus: "rne (- q) = - rne q"
proof (cases "q = of_int \<lfloor>q\<rfloor>")
  case True
  then obtain n where "q = of_int n" ..
  then have "- q = of_int (- n)" by simp
  then show ?thesis unfolding \<open>q = of_int n\<close> by (simp only: rne_of_int)
next
  case False
  then have fl: "\<lfloor>- q\<rfloor> = - \<lfloor>q\<rfloor> - 1"
    by (simp add: floor_minus ceiling_altdef)
  show ?thesis
    by (auto simp add: rne_def Let_def fl)
qed

lemma pow2_nonneg [simp]: "0 \<le> pow2 k"
  using pow2_pos [of k] by (simp only: less_imp_le)

lemma pow2_neq0 [simp]: "pow2 k \<noteq> 0"
  using pow2_pos [of k] by (simp only: less_imp_neq [THEN not_sym] not_False_eq_True)

lemma fl_0 [simp]: "fl 0 = 0"
  by (simp add: fl_def)

lemma quantum_exp_minus [simp]: "quantum_exp (- x) = quantum_exp x"
  by (simp add: quantum_exp_def)

lemma fl_minus: "fl (- x) = - fl x"
  by (simp add: fl_def rne_minus)

lemma fl_nonneg:
  assumes "0 \<le> x"
  shows "0 \<le> fl x"
proof -
  have "0 \<le> x / pow2 (quantum_exp x)" using assms by simp
  then have "0 \<le> rne (x / pow2 (quantum_exp x))" by (rule rne_nonneg)
  then show ?thesis by (simp add: fl_def)
qed

lemma fl_error: "\<bar>fl x - x\<bar> \<le> pow2 (quantum_exp x) / 2"
proof (cases "x = 0")
  case True
  then show ?thesis by simp
next
  case False
  define e where "e = quantum_exp x"
  have p: "0 < pow2 e" by simp
  have "fl x - x = (of_int (rne (x / pow2 e)) - x / pow2 e) * pow2 e"
    using False by (simp add: fl_def e_def algebra_simps)
  then have "\<bar>fl x - x\<bar> = \<bar>of_int (rne (x / pow2 e)) - x / pow2 e\<bar> * pow2 e"
    by (simp add: abs_mult)
  also have "\<dots> \<le> (1 / 2) * pow2 e"
    by (rule mult_right_mono [OF rne_error]) simp
  finally show ?thesis by (simp add: e_def)
qed

lemma quantum_exp_le:
  assumes "x \<noteq> 0" and "\<bar>x\<bar> < pow2 n" and "- 1021 \<le> n"
  shows "quantum_exp x \<le> n - 53"
  using ilog2_less [OF assms(1,2)] assms(3) by (simp add: quantum_exp_def)

lemma fl_abs_error:
  assumes "\<bar>x\<bar> < pow2 n" and "- 1021 \<le> n"
  shows "\<bar>fl x - x\<bar> \<le> pow2 (n - 54)"
proof (cases "x = 0")
  case True
  then show ?thesis by simp
next
  case False
  have "\<bar>fl x - x\<bar> \<le> pow2 (quantum_exp x) / 2" by (rule fl_error)
  also have "\<dots> \<le> pow2 (n - 53) / 2"
    using pow2_mono [OF quantum_exp_le [OF False assms]] by simp
  also have "\<dots> = pow2 (n - 54)"
    using pow2_Suc [of "n - 54"] by simp
  finally show ?thesis .
qed

text \<open>Rounding never crosses a multiple of the quantum.\<close>

lemma fl_le_multiple:
  assumes "x \<noteq> 0" and "x \<le> of_int m * pow2 (quantum_exp x)"
  shows "fl x \<le> of_int m * pow2 (quantum_exp x)"
proof -
  have "x / pow2 (quantum_exp x) \<le> of_int m"
    using assms(2) by (simp add: pos_divide_le_eq)
  from rne_mono [OF this] have "rne (x / pow2 (quantum_exp x)) \<le> m" by simp
  then have "(of_int (rne (x / pow2 (quantum_exp x))) :: rat) \<le> of_int m"
    by (simp only: of_int_le_iff)
  then show ?thesis using assms(1) by (simp add: fl_def)
qed

lemma fl_le_one:
  assumes "0 \<le> x" and "x \<le> 1"
  shows "fl x \<le> 1"
proof (cases "x = 0")
  case True
  then show ?thesis by simp
next
  case False
  have "\<bar>x\<bar> < pow2 1" using assms by simp
  from quantum_exp_le [OF False this] have e: "quantum_exp x \<le> - 52" by simp
  then have n: "0 \<le> - quantum_exp x" by simp
  have one: "of_int (2 ^ nat (- quantum_exp x)) * pow2 (quantum_exp x) = 1"
    using pow2_add [of "- quantum_exp x" "quantum_exp x"] by (simp add: pow2_of_nat [OF n])
  from fl_le_multiple [OF False, of "2 ^ nat (- quantum_exp x)"] assms(2)
  show ?thesis by (simp only: one)
qed

section \<open>Properties of \<^verbatim>\<open>create_gradient\<close>\<close>

text \<open>
  The channel of a gradient between two 8-bit colours: the rounding errors of the five double
  operations add up to less than \<open>2 ^ -43\<close>, so the truncated value is at most the larger
  channel and at least the smaller channel minus one.
\<close>

lemma gradient_channel_bounds:
  assumes a: "0 \<le> a" "a \<le> 255" and b: "0 \<le> b" "b \<le> 255"
    and i: "0 \<le> i" "i < extent"
  shows "max 0 (min a b - 1) \<le> gradient_channel a b (int_truediv i extent)"
    and "gradient_channel a b (int_truediv i extent) \<le> max a b"
proof -
  define r where "r = int_truediv i extent"
  define u where "u = fsub 1 r"
  define x1 where "x1 = of_int a * u"
  define x2 where "x2 = of_int b * r"
  define p1 where "p1 = fl x1"
  define p2 where "p2 = fl x2"
  define s where "s = fl (p1 + p2)"
  define lo :: rat where "lo = of_int (min a b)"
  define hi :: rat where "hi = of_int (max a b)"
  define d :: rat where "d = 1 / 9007199254740992"
  have ch: "gradient_channel a b (int_truediv i extent) = py_int s"
    by (simp add: gradient_channel_def s_def p1_def p2_def x1_def x2_def u_def r_def fadd_def fmul_def)
  have e53: "pow2 (- 53) = d" by (simp add: pow2_def d_def)
  have e46: "pow2 (- 46) = 128 * d" by (simp add: pow2_def d_def)
  have e45: "pow2 (- 45) = 256 * d" by (simp add: pow2_def d_def)
  have p8: "pow2 8 = 256" by (simp add: pow2_def)
  have p9: "pow2 9 = 512" by (simp add: pow2_def)
  have dpos: "0 < d" "1024 * d < 1" by (simp_all add: d_def)
  \<comment> \<open>the ratio and its complement\<close>
  have q: "0 \<le> (of_int i :: rat) / of_int extent" "(of_int i :: rat) / of_int extent \<le> 1"
    using i by (simp_all add: divide_le_eq_1)
  have r0: "0 \<le> r" unfolding r_def int_truediv_def by (rule fl_nonneg [OF q(1)])
  have r1: "r \<le> 1" unfolding r_def int_truediv_def by (rule fl_le_one [OF q])
  have u0: "0 \<le> u" unfolding u_def fsub_def using r1 by (intro fl_nonneg) simp
  have u1: "u \<le> 1" unfolding u_def fsub_def using r0 r1 by (intro fl_le_one) simp_all
  have "\<bar>fl (1 - r) - (1 - r)\<bar> \<le> pow2 (1 - 54)"
    using r0 r1 by (intro fl_abs_error) simp_all
  then have ur: "\<bar>u + r - 1\<bar> \<le> d"
    by (simp add: u_def fsub_def e53 algebra_simps)
  \<comment> \<open>the two products\<close>
  have lohi: "lo \<le> of_int a" "of_int a \<le> hi" "lo \<le> of_int b" "of_int b \<le> hi" "0 \<le> lo" "hi \<le> 255"
    using a b by (simp_all add: lo_def hi_def)
  have x1b: "0 \<le> x1" "x1 \<le> 255" "lo * u \<le> x1" "x1 \<le> hi * u"
  proof -
    show "0 \<le> x1" using a u0 by (simp add: x1_def)
    have "x1 \<le> of_int a * 1" unfolding x1_def using a u1 by (intro mult_left_mono) simp_all
    then show "x1 \<le> 255" using a by simp
    show "lo * u \<le> x1" unfolding x1_def using lohi u0 by (intro mult_right_mono) simp_all
    show "x1 \<le> hi * u" unfolding x1_def using lohi u0 by (intro mult_right_mono) simp_all
  qed
  have x2b: "0 \<le> x2" "x2 \<le> 255" "lo * r \<le> x2" "x2 \<le> hi * r"
  proof -
    show "0 \<le> x2" using b r0 by (simp add: x2_def)
    have "x2 \<le> of_int b * 1" unfolding x2_def using b r1 by (intro mult_left_mono) simp_all
    then show "x2 \<le> 255" using b by simp
    show "lo * r \<le> x2" unfolding x2_def using lohi r0 by (intro mult_right_mono) simp_all
    show "x2 \<le> hi * r" unfolding x2_def using lohi r0 by (intro mult_right_mono) simp_all
  qed
  have p1e: "\<bar>p1 - x1\<bar> \<le> 128 * d"
    using fl_abs_error [of x1 8] x1b by (simp add: p1_def p8 e46)
  have p2e: "\<bar>p2 - x2\<bar> \<le> 128 * d"
    using fl_abs_error [of x2 8] x2b by (simp add: p2_def p8 e46)
  have p10: "0 \<le> p1" unfolding p1_def by (rule fl_nonneg [OF x1b(1)])
  have p20: "0 \<le> p2" unfolding p2_def by (rule fl_nonneg [OF x2b(1)])
  \<comment> \<open>the sum\<close>
  have sum_hi: "p1 + p2 < 512" using p1e p2e x1b x2b dpos by linarith
  have se: "\<bar>s - (p1 + p2)\<bar> \<le> 256 * d"
    using fl_abs_error [of "p1 + p2" 9] p10 p20 sum_hi by (simp add: s_def p9 e45)
  have s0: "0 \<le> s" unfolding s_def using p10 p20 by (intro fl_nonneg) simp
  have "hi * u + hi * r = hi * (u + r)" by (simp add: algebra_simps)
  also have "\<dots> \<le> hi * (1 + d)" using ur lohi a by (intro mult_left_mono) (simp_all add: hi_def)
  also have "\<dots> \<le> hi + 255 * d" using lohi dpos by (simp add: algebra_simps)
  finally have up: "hi * u + hi * r \<le> hi + 255 * d" .
  have "lo - 255 * d \<le> lo * (1 - d)" using lohi a b dpos by (simp add: algebra_simps lo_def)
  also have "\<dots> \<le> lo * (u + r)" using ur lohi by (intro mult_left_mono) simp_all
  also have "\<dots> = lo * u + lo * r" by (simp add: algebra_simps)
  finally have dn: "lo - 255 * d \<le> lo * u + lo * r" .
  have s_hi: "s < hi + 1" using se p1e p2e x1b x2b up dpos by linarith
  have s_lo: "lo - 1 < s" using se p1e p2e x1b x2b dn dpos by linarith
  have py: "py_int s = \<lfloor>s\<rfloor>" using s0 by (simp add: py_int_def)
  from s_hi have "s < of_int (max a b + 1)" by (simp add: hi_def)
  then have "\<lfloor>s\<rfloor> < max a b + 1" by (simp only: floor_less_iff)
  then show "gradient_channel a b (int_truediv i extent) \<le> max a b"
    by (simp add: ch py)
  from s_lo have "of_int (min a b - 1) \<le> s" by (simp add: lo_def)
  then have "min a b - 1 \<le> \<lfloor>s\<rfloor>" by (simp only: le_floor_iff)
  moreover from s0 have "0 \<le> \<lfloor>s\<rfloor>" by simp
  ultimately show "max 0 (min a b - 1) \<le> gradient_channel a b (int_truediv i extent)"
    by (simp add: ch py)
qed

lemma isize_draw_line [simp]: "isize (draw_line im p0 p1 c) = isize im"
  by (simp add: draw_line_def)

lemma isize_gradient_step [simp]:
  "isize (gradient_step width height c1 c2 vertical img i) = isize img"
  by (simp add: gradient_step_def Let_def)

lemma isize_gradient_loop [simp]:
  "isize (foldl (gradient_step width height c1 c2 vertical) img idx) = isize img"
  by (induction idx arbitrary: img) simp_all

text \<open>
  What one iteration does to a pixel inside a canvas of the gradient's size: the pixels of
  row (or column) \<open>i\<close> take the colour of \<open>i\<close>, every other pixel is kept.
\<close>

lemma pix_gradient_step:
  assumes "isize img = (width, height)" and "0 \<le> x" "x < width" "0 \<le> y" "y < height"
  shows "pix (gradient_step width height c1 c2 vertical img i) (x, y) =
     (if (if vertical then y else x) = i
      then gradient_colour c1 c2 (int_truediv i (if vertical then height else width))
      else pix img (x, y))"
  using assms
  by (auto simp add: gradient_step_def Let_def draw_line_def in_bounds_def on_segment_def)

lemma pix_gradient_loop:
  assumes "isize img = (width, height)" and "0 \<le> x" "x < width" "0 \<le> y" "y < height"
  shows "pix (foldl (gradient_step width height c1 c2 vertical) img idx) (x, y) =
     (if (if vertical then y else x) \<in> set idx
      then gradient_colour c1 c2
             (int_truediv (if vertical then y else x) (if vertical then height else width))
      else pix img (x, y))"
proof (induction idx rule: rev_induct)
  case Nil
  show ?case by simp
next
  case (snoc i idx)
  have sz: "isize (foldl (gradient_step width height c1 c2 vertical) img idx) = (width, height)"
    using assms(1) by simp
  show ?case
    using snoc.IH by (simp add: pix_gradient_step [OF sz assms(2-5)])
qed

lemma pix_create_gradient:
  assumes "0 \<le> x" "x < width" "0 \<le> y" "y < height"
  shows "pix (create_gradient width height c1 c2 vertical) (x, y) =
     gradient_colour c1 c2
       (int_truediv (if vertical then y else x) (if vertical then height else width))"
proof -
  have sz: "isize (image_new (width, height) (0, 0, 0) :: rgb image) = (width, height)"
    by (simp add: image_new_def)
  have mem: "(if vertical then y else x) \<in> set [0 .. (if vertical then height else width) - 1]"
    using assms by simp
  show ?thesis
    unfolding create_gradient_def
    using mem by (simp only: pix_gradient_loop [OF sz assms] if_True)
qed

lemma isize_create_gradient:
  "isize (create_gradient width height c1 c2 vertical) = (width, height)"
  by (simp add: create_gradient_def image_new_def)

lemma gradient_channel_mid: "gradient_channel 0 255 (int_truediv 1 2) = 127"
  by code_simp

lemma gradient_channel_flat: "gradient_channel 29 29 (int_truediv 3 7) = 28"
  by code_simp

lemma gradient_channel_clamp:
  assumes "0 \<le> a" "a \<le> 255" "0 \<le> b" "b \<le> 255" "0 \<le> i" "i < extent"
  shows "max 0 (min 255 (gradient_channel a b (int_truediv i extent))) =
           gradient_channel a b (int_truediv i extent)"
  using gradient_channel_bounds [OF assms] assms by simp

text \<open>
  Claim C1, as the code has it. For 8-bit colours, every pixel of row (or column) \<open>i\<close> of the
  canvas has the channels \<^verbatim>\<open>int(c1 * (1 - t) + c2 * t)\<close>: the double-precision value truncated
  toward zero, with \<open>t = i / extent\<close> in double precision. The value is already in \<open>[0, 255]\<close>,
  so clamping it changes nothing.
\<close>

theorem create_gradient_truncates:
  assumes "1 \<le> width" "1 \<le> height" "0 \<le> x" "x < width" "0 \<le> y" "y < height"
    and "0 \<le> r1" "r1 \<le> 255" "0 \<le> g1" "g1 \<le> 255" "0 \<le> b1" "b1 \<le> 255"
    and "0 \<le> r2" "r2 \<le> 255" "0 \<le> g2" "g2 \<le> 255" "0 \<le> b2" "b2 \<le> 255"
    and "i = (if vertical then y else x)" and "extent = (if vertical then height else width)"
    and "t = int_truediv i extent"
  shows "isize (create_gradient width height (r1, g1, b1) (r2, g2, b2) vertical) = (width, height)
    \<and> pix (create_gradient width height (r1, g1, b1) (r2, g2, b2) vertical) (x, y) =
        (max 0 (min 255 (py_int (fl (fl (of_int r1 * fl (1 - t)) + fl (of_int r2 * t))))),
         max 0 (min 255 (py_int (fl (fl (of_int g1 * fl (1 - t)) + fl (of_int g2 * t))))),
         max 0 (min 255 (py_int (fl (fl (of_int b1 * fl (1 - t)) + fl (of_int b2 * t))))))"
proof -
  have ie: "0 \<le> i" "i < extent" using assms by (auto split: if_splits)
  have ch: "\<And>a b. py_int (fl (fl (of_int a * fl (1 - t)) + fl (of_int b * t))) = gradient_channel a b t"
    by (simp add: gradient_channel_def fadd_def fmul_def fsub_def)
  have cl: "\<And>a b. 0 \<le> a \<Longrightarrow> a \<le> 255 \<Longrightarrow> 0 \<le> b \<Longrightarrow> b \<le> 255 \<Longrightarrow>
      max 0 (min 255 (gradient_channel a b t)) = gradient_channel a b t"
    unfolding \<open>t = int_truediv i extent\<close> using ie by (simp add: gradient_channel_clamp)
  have px: "pix (create_gradient width height (r1, g1, b1) (r2, g2, b2) vertical) (x, y) =
      gradient_colour (r1, g1, b1) (r2, g2, b2) t"
    using assms by (simp only: pix_create_gradient)
  have c1: "max 0 (min 255 (py_int (fl (fl (of_int r1 * fl (1 - t)) + fl (of_int r2 * t))))) =
      gradient_channel r1 r2 t"
    using assms(7,8,13,14) by (simp only: ch cl)
  have c2: "max 0 (min 255 (py_int (fl (fl (of_int g1 * fl (1 - t)) + fl (of_int g2 * t))))) =
      gradient_channel g1 g2 t"
    using assms(9,10,15,16) by (simp only: ch cl)
  have c3: "max 0 (min 255 (py_int (fl (fl (of_int b1 * fl (1 - t)) + fl (of_int b2 * t))))) =
      gradient_channel b1 b2 t"
    using assms(11,12,17,18) by (simp only: ch cl)
  show ?thesis
    by (simp only: px c1 c2 c3 gradient_colour_def isize_create_gradient fst_conv snd_conv simp_thms)
qed

theorem create_gradient_truncates_witness:
  "(1::int) \<le> 1 \<and> (1::int) \<le> 2 \<and> (0::int) \<le> 0 \<and> (0::int) < 1 \<and> (0::int) \<le> 1 \<and> (1::int) < 2
   \<and> (0::int) \<le> 255 \<and> (255::int) \<le> 255
   \<and> pix (create_gradient 1 2 (0, 0, 0) (255, 255, 255) True) (0, 1) = (127, 127, 127)"
proof -
  have ev: "py_int (fl (fl (of_int 0 * fl (1 - int_truediv 1 2)) + fl (of_int 255 * int_truediv 1 2))) = 127"
    using gradient_channel_mid by (simp add: gradient_channel_def fadd_def fmul_def fsub_def)
  from create_gradient_truncates [of 1 2 0 1 0 0 0 255 255 255 1 True 2 "int_truediv 1 2"]
  have "pix (create_gradient 1 2 (0, 0, 0) (255, 255, 255) True) (0, 1) =
      (max 0 (min 255 (py_int (fl (fl (of_int 0 * fl (1 - int_truediv 1 2)) + fl (of_int 255 * int_truediv 1 2))))),
       max 0 (min 255 (py_int (fl (fl (of_int 0 * fl (1 - int_truediv 1 2)) + fl (of_int 255 * int_truediv 1 2))))),
       max 0 (min 255 (py_int (fl (fl (of_int 0 * fl (1 - int_truediv 1 2)) + fl (of_int 255 * int_truediv 1 2))))))"
    by simp
  then show ?thesis by (simp only: ev) simp
qed

text \<open>
  Claim C1 as stated fails: halfway between 0 and 255 the code yields 127, rounding yields 128.
\<close>

theorem create_gradient_not_rounded:
  "fst (pix (create_gradient 1 2 (0, 0, 0) (255, 255, 255) True) (0, 1)) = 127
   \<and> spec_gradient_channel 0 255 1 2 = 128"
proof -
  have "spec_gradient_channel 0 255 1 2 = 128" by code_simp
  moreover have "pix (create_gradient 1 2 (0, 0, 0) (255, 255, 255) True) (0, 1) =
      gradient_colour (0, 0, 0) (255, 255, 255) (int_truediv 1 2)"
    by (simp add: pix_create_gradient)
  ultimately show ?thesis
    by (simp add: gradient_colour_def gradient_channel_mid)
qed

text \<open>
  Claim C9, as the code has it. For 8-bit colours every channel of every pixel of the gradient
  lies between the smaller input channel minus one (and 0) and the larger input channel, hence
  in \<open>[0, 255]\<close>.
\<close>

theorem create_gradient_channel_range:
  assumes "1 \<le> width" "1 \<le> height" "0 \<le> x" "x < width" "0 \<le> y" "y < height"
    and "0 \<le> r1" "r1 \<le> 255" "0 \<le> g1" "g1 \<le> 255" "0 \<le> b1" "b1 \<le> 255"
    and "0 \<le> r2" "r2 \<le> 255" "0 \<le> g2" "g2 \<le> 255" "0 \<le> b2" "b2 \<le> 255"
    and "pix (create_gradient width height (r1, g1, b1) (r2, g2, b2) vertical) (x, y) = (r, g, b)"
  shows "max 0 (min r1 r2 - 1) \<le> r \<and> r \<le> max r1 r2 \<and> 0 \<le> r \<and> r \<le> 255
       \<and> max 0 (min g1 g2 - 1) \<le> g \<and> g \<le> max g1 g2 \<and> 0 \<le> g \<and> g \<le> 255
       \<and> max 0 (min b1 b2 - 1) \<le> b \<and> b \<le> max b1 b2 \<and> 0 \<le> b \<and> b \<le> 255"
proof -
  define i where "i = (if vertical then y else x)"
  define extent where "extent = (if vertical then height else width)"
  have ie: "0 \<le> i" "i < extent" using assms by (auto simp add: i_def extent_def)
  have "pix (create_gradient width height (r1, g1, b1) (r2, g2, b2) vertical) (x, y) =
      gradient_colour (r1, g1, b1) (r2, g2, b2) (int_truediv i extent)"
    using assms by (simp only: pix_create_gradient i_def extent_def)
  with assms have rgb: "r = gradient_channel r1 r2 (int_truediv i extent)"
    "g = gradient_channel g1 g2 (int_truediv i extent)"
    "b = gradient_channel b1 b2 (int_truediv i extent)"
    by (simp_all add: gradient_colour_def)
  have R: "max 0 (min r1 r2 - 1) \<le> r \<and> r \<le> max r1 r2"
    using gradient_channel_bounds [of r1 r2 i extent] assms ie by (simp add: rgb)
  have G: "max 0 (min g1 g2 - 1) \<le> g \<and> g \<le> max g1 g2"
    using gradient_channel_bounds [of g1 g2 i extent] assms ie by (simp add: rgb)
  have B: "max 0 (min b1 b2 - 1) \<le> b \<and> b \<le> max b1 b2"
    using gradient_channel_bounds [of b1 b2 i extent] assms ie by (simp add: rgb)
  from R G B assms(7-18) show ?thesis by (auto simp add: max_def split: if_splits)
qed

text \<open>
  Claim C9 as stated fails: a gradient between two equal colours of channel 29 over seven rows
  has channel 28 in row 3.
\<close>

theorem create_gradient_below_minimum:
  "pix (create_gradient 1 7 (29, 29, 29) (29, 29, 29) True) (0, 3) = (28, 28, 28)
   \<and> \<not> min 29 29 \<le> fst (pix (create_gradient 1 7 (29, 29, 29) (29, 29, 29) True) (0, 3))"
proof -
  have "pix (create_gradient 1 7 (29, 29, 29) (29, 29, 29) True) (0, 3) =
      gradient_colour (29, 29, 29) (29, 29, 29) (int_truediv 3 7)"
    by (simp add: pix_create_gradient)
  then show ?thesis
    by (simp add: gradient_colour_def gradient_channel_flat)
qed

theorem create_gradient_channel_range_witness:
  "(1::int) \<le> 1 \<and> (1::int) \<le> 7 \<and> (0::int) \<le> 0 \<and> (0::int) < 1 \<and> (0::int) \<le> 3 \<and> (3::int) < 7
   \<and> (0::int) \<le> 29 \<and> (29::int) \<le> 255
   \<and> pix (create_gradient 1 7 (29, 29, 29) (29, 29, 29) True) (0, 3) = (28, 28, 28)
   \<and> max 0 (min 29 29 - 1) \<le> (28::int) \<and> (28::int) \<le> max 29 29 \<and> (0::int) \<le> 28 \<and> (28::int) \<le> 255"
proof -
  have p: "pix (create_gradient 1 7 (29, 29, 29) (29, 29, 29) True) (0, 3) = (28, 28, 28)"
    by (simp add: pix_create_gradient gradient_colour_def gradient_channel_flat)
  from create_gradient_channel_range [of 1 7 0 3 29 29 29 29 29 29 True 28 28 28] p
  show ?thesis by simp
qed

section \<open>Properties of the bridge curve\<close>

lemma bridge_constants:
  "book_x - 40 = 126" "book_width + 80 = 260" "bridge_y = 396"
  by (simp_all add: book_x_def book_width_def bridge_y_def book_y_def book_height_def
      center_x_def center_y_def icon_size_def)

lemma bridge_points_nth:
  assumes "0 \<le> i" "i \<le> 100"
  shows "bridge_points ! nat i = bridge_point i"
proof -
  have "nat i < length [0 .. 100::int]" using assms by simp
  then have "bridge_points ! nat i = bridge_point ([0 .. 100] ! nat i)"
    unfolding bridge_points_def by (rule nth_map)
  also have "[0 .. 100] ! nat i = 0 + int (nat i)"
    using assms by (intro nth_upto) simp
  finally show ?thesis using assms by simp
qed

lemma bridge_t_mirror: "bridge_t (100 - i) = - bridge_t i"
proof -
  have "(of_int (100 - i - 50) :: rat) / of_int 50 = - (of_int (i - 50) / of_int 50)"
    by (simp add: field_simps)
  then show ?thesis
    by (simp only: bridge_t_def int_truediv_def fl_minus)
qed

lemma bridge_point_mirror: "snd (bridge_point (100 - i)) = snd (bridge_point i)"
  by (simp add: bridge_point_def Let_def bridge_t_mirror fmul_def)

lemma bridge_point_close:
  assumes i: "0 \<le> i" "i \<le> 100"
  shows "\<bar>bridge_t i - (of_int i - 50) / 50\<bar> \<le> pow2 (- 53)"
    and "\<bar>fst (bridge_point i) - (of_int (book_x - 40) + of_int i * of_int (book_width + 80) / 100)\<bar>
           \<le> pow2 (- 44)"
    and "\<bar>snd (bridge_point i) - (of_int bridge_y - 30 * (1 - ((of_int i - 50) / 50)\<^sup>2))\<bar>
           \<le> pow2 (- 44)"
proof -
  define d :: rat where "d = 1 / 9007199254740992"
  define q :: rat where "q = (of_int i - 50) / 50"
  define t where "t = bridge_t i"
  define tt where "tt = fl (t * t)"
  define w where "w = fl (1 - tt)"
  define v where "v = fl (30 * w)"
  define y where "y = fl (396 - v)"
  define xq where "xq = fl (of_int i * 260 / 100)"
  define x where "x = fl (126 + xq)"
  have e53: "pow2 (- 53) = d" by (simp add: pow2_def d_def)
  have e52: "pow2 (- 52) = 2 * d" by (simp add: pow2_def d_def)
  have e49: "pow2 (- 49) = 16 * d" by (simp add: pow2_def d_def)
  have e45: "pow2 (- 45) = 256 * d" by (simp add: pow2_def d_def)
  have e44: "pow2 (- 44) = 512 * d" by (simp add: pow2_def d_def)
  have p2: "pow2 2 = 4" and p5: "pow2 5 = 32" and p9: "pow2 9 = 512" by (simp_all add: pow2_def)
  have dpos: "0 < d" "4096 * d < 1" by (simp_all add: d_def)
  have q1: "- 1 \<le> q" "q \<le> 1" using i by (simp_all add: q_def)
  have tq: "t = fl q"
    by (simp add: t_def bridge_t_def int_truediv_def q_def)
  have te: "\<bar>t - q\<bar> \<le> d"
    using fl_abs_error [of q 1] q1 by (simp add: tq e53)
  then show "\<bar>bridge_t i - (of_int i - 50) / 50\<bar> \<le> pow2 (- 53)"
    by (simp add: t_def q_def e53)
  have tb: "\<bar>t\<bar> \<le> 5 / 4" using te q1 dpos by linarith
  have "\<bar>t * t\<bar> = \<bar>t\<bar> * \<bar>t\<bar>" by (simp add: abs_mult)
  also have "\<dots> \<le> (5 / 4) * (5 / 4)" using tb by (intro mult_mono) simp_all
  finally have ttb: "\<bar>t * t\<bar> < 2" by simp
  have tte: "\<bar>tt - t * t\<bar> \<le> d"
    using fl_abs_error [of "t * t" 1] ttb by (simp add: tt_def e53)
  have "t * t - q * q = (t - q) * (t + q)" by (simp add: algebra_simps)
  then have "\<bar>t * t - q * q\<bar> = \<bar>t - q\<bar> * \<bar>t + q\<bar>" by (simp add: abs_mult)
  also have "\<dots> \<le> d * 3"
    using te tb q1 dpos by (intro mult_mono) linarith+
  finally have sq: "\<bar>t * t - q * q\<bar> \<le> 3 * d" by simp
  have qq: "0 \<le> q * q" "q * q \<le> 1"
  proof -
    show "0 \<le> q * q" by simp
    have "\<bar>q\<bar> * \<bar>q\<bar> \<le> 1 * 1" using q1 by (intro mult_mono) simp_all
    then show "q * q \<le> 1" by (simp add: abs_mult [symmetric])
  qed
  define qs where "qs = q * q"
  have sq': "\<bar>t * t - qs\<bar> \<le> 3 * d" using sq by (simp add: qs_def)
  have qq': "0 \<le> qs" "qs \<le> 1" using qq by (simp_all add: qs_def)
  define ts where "ts = t * t"
  have tte': "\<bar>tt - ts\<bar> \<le> d" using tte by (simp add: ts_def)
  have sq'': "\<bar>ts - qs\<bar> \<le> 3 * d" using sq' by (simp add: ts_def)
  have ttb': "\<bar>ts\<bar> < 2" using ttb by (simp add: ts_def)
  have b1: "\<bar>1 - tt\<bar> < 4" using tte' ttb' dpos by linarith
  have we: "\<bar>w - (1 - tt)\<bar> \<le> 2 * d"
    using fl_abs_error [of "1 - tt" 2] b1 by (simp add: w_def e52 p2)
  define u where "u = 1 - qs"
  have u01: "0 \<le> u" "u \<le> 1" using qq' by (simp_all add: u_def)
  have wq: "\<bar>w - u\<bar> \<le> 6 * d" using we tte' sq'' unfolding u_def by linarith
  have wb: "\<bar>30 * w\<bar> < 32" using wq u01 dpos by linarith
  have ve: "\<bar>v - 30 * w\<bar> \<le> 16 * d"
    using fl_abs_error [of "30 * w" 5] wb by (simp add: v_def e49 p5)
  have vq: "\<bar>v - 30 * u\<bar> \<le> 196 * d" using ve wq by linarith
  have yb: "\<bar>396 - v\<bar> < 512" using vq u01 dpos by linarith
  have ye: "\<bar>y - (396 - v)\<bar> \<le> 256 * d"
    using fl_abs_error [of "396 - v" 9] yb by (simp add: y_def e45 p9)
  have yq: "\<bar>y - (396 - 30 * u)\<bar> \<le> 512 * d" using ye vq dpos by linarith
  have sy: "snd (bridge_point i) = y"
    by (simp add: bridge_point_def Let_def y_def v_def w_def tt_def t_def fsub_def fmul_def
        bridge_constants)
  show "\<bar>snd (bridge_point i) - (of_int bridge_y - 30 * (1 - ((of_int i - 50) / 50)\<^sup>2))\<bar>
           \<le> pow2 (- 44)"
    using yq by (simp add: sy e44 bridge_constants u_def qs_def q_def power2_eq_square)
  have xqb: "0 \<le> (of_int i :: rat) * 260 / 100" "(of_int i :: rat) * 260 / 100 \<le> 260"
    using i by simp_all
  have xqe: "\<bar>xq - of_int i * 260 / 100\<bar> \<le> 256 * d"
    using fl_abs_error [of "of_int i * 260 / 100" 9] xqb by (simp add: xq_def e45 p9)
  have xb: "\<bar>126 + xq\<bar> < 512" using xqe xqb dpos by linarith
  have xe: "\<bar>x - (126 + xq)\<bar> \<le> 256 * d"
    using fl_abs_error [of "126 + xq" 9] xb by (simp add: x_def e45 p9)
  have xq': "\<bar>x - (126 + of_int i * 260 / 100)\<bar> \<le> 512 * d" using xe xqe by linarith
  have sx: "fst (bridge_point i) = x"
    by (simp add: bridge_point_def Let_def x_def xq_def fadd_def int_truediv_def bridge_constants)
  show "\<bar>fst (bridge_point i) - (of_int (book_x - 40) + of_int i * of_int (book_width + 80) / 100)\<bar>
           \<le> pow2 (- 44)"
    using xq' by (simp add: sx e44 bridge_constants)
qed

lemma bridge_t_ends: "bridge_t 0 = - 1" "bridge_t 100 = 1"
  by code_simp+

lemma bridge_point_25: "bridge_point 25 = (191, 747 / 2)"
  by code_simp

text \<open>
  Claim C6. The curve has exactly 101 samples; the parameter of sample \<open>i\<close> is
  \<^verbatim>\<open>(i - 50) / 50\<close>, running from \<open>-1\<close> at sample 0 to \<open>1\<close> at sample 100; sample \<open>i\<close> is the point
  \<^verbatim>\<open>(book_x - 40 + i * (book_width + 80) / 100, bridge_y - 30 * (1 - t * t))\<close> as evaluated
  in double arithmetic, and it lies within \<open>2 ^ -44\<close> of the exact point of the parabola
  \<open>y = bridge_y - 30 * (1 - t\<^sup>2)\<close>.
\<close>

theorem bridge_points_sampled:
  "length bridge_points = 101
   \<and> bridge_t 0 = - 1 \<and> bridge_t 100 = 1
   \<and> (\<forall>i \<in> {0 .. 100}.
         bridge_t i = int_truediv (i - 50) 50
       \<and> bridge_points ! nat i =
           (fadd (of_int (book_x - 40)) (int_truediv (i * (book_width + 80)) 100),
            fsub (of_int bridge_y) (fmul 30 (fsub 1 (fmul (bridge_t i) (bridge_t i)))))
       \<and> \<bar>bridge_t i - (of_int i - 50) / 50\<bar> \<le> pow2 (- 53)
       \<and> \<bar>fst (bridge_points ! nat i)
            - (of_int (book_x - 40) + of_int i * of_int (book_width + 80) / 100)\<bar> \<le> pow2 (- 44)
       \<and> \<bar>snd (bridge_points ! nat i)
            - (of_int bridge_y - 30 * (1 - ((of_int i - 50) / 50)\<^sup>2))\<bar> \<le> pow2 (- 44))"
proof (intro conjI ballI)
  show "length bridge_points = 101" by (simp add: bridge_points_def)
  show "bridge_t 0 = - 1" "bridge_t 100 = 1" by (rule bridge_t_ends)+
next
  fix i :: int
  assume "i \<in> {0 .. 100}"
  then have i: "0 \<le> i" "i \<le> 100" by simp_all
  note nth = bridge_points_nth [OF i]
  show "bridge_t i = int_truediv (i - 50) 50" by (simp add: bridge_t_def)
  show "bridge_points ! nat i =
      (fadd (of_int (book_x - 40)) (int_truediv (i * (book_width + 80)) 100),
       fsub (of_int bridge_y) (fmul 30 (fsub 1 (fmul (bridge_t i) (bridge_t i)))))"
    by (simp add: nth bridge_point_def Let_def)
  show "\<bar>bridge_t i - (of_int i - 50) / 50\<bar> \<le> pow2 (- 53)"
    by (rule bridge_point_close(1) [OF i])
  show "\<bar>fst (bridge_points ! nat i)
      - (of_int (book_x - 40) + of_int i * of_int (book_width + 80) / 100)\<bar> \<le> pow2 (- 44)"
    unfolding nth by (rule bridge_point_close(2) [OF i])
  show "\<bar>snd (bridge_points ! nat i)
      - (of_int bridge_y - 30 * (1 - ((of_int i - 50) / 50)\<^sup>2))\<bar> \<le> pow2 (- 44)"
    unfolding nth by (rule bridge_point_close(3) [OF i])
qed

theorem bridge_points_sampled_witness:
  "(25::int) \<in> {0 .. 100}
   \<and> bridge_points ! nat 25 = (191, 747 / 2)
   \<and> \<bar>snd (bridge_points ! nat 25) - (of_int bridge_y - 30 * (1 - ((of_int 25 - 50) / 50)\<^sup>2))\<bar>
        \<le> pow2 (- 44)"
proof -
  have m: "(25::int) \<in> {0 .. 100}" by simp
  from bridge_points_sampled
  have all: "\<forall>i \<in> {0 .. 100}.
         bridge_t i = int_truediv (i - 50) 50
       \<and> bridge_points ! nat i =
           (fadd (of_int (book_x - 40)) (int_truediv (i * (book_width + 80)) 100),
            fsub (of_int bridge_y) (fmul 30 (fsub 1 (fmul (bridge_t i) (bridge_t i)))))
       \<and> \<bar>bridge_t i - (of_int i - 50) / 50\<bar> \<le> pow2 (- 53)
       \<and> \<bar>fst (bridge_points ! nat i)
            - (of_int (book_x - 40) + of_int i * of_int (book_width + 80) / 100)\<bar> \<le> pow2 (- 44)
       \<and> \<bar>snd (bridge_points ! nat i)
            - (of_int bridge_y - 30 * (1 - ((of_int i - 50) / 50)\<^sup>2))\<bar> \<le> pow2 (- 44)"
    by (elim conjE)
  have v: "(fadd (of_int (book_x - 40)) (int_truediv (25 * (book_width + 80)) 100),
            fsub (of_int bridge_y) (fmul 30 (fsub 1 (fmul (bridge_t 25) (bridge_t 25)))))
          = (191, 747 / 2)"
    using bridge_point_25 by (simp add: bridge_point_def Let_def)
  from bspec [OF all m]
  have b: "bridge_points ! nat 25 =
           (fadd (of_int (book_x - 40)) (int_truediv (25 * (book_width + 80)) 100),
            fsub (of_int bridge_y) (fmul 30 (fsub 1 (fmul (bridge_t 25) (bridge_t 25)))))"
    and c: "\<bar>snd (bridge_points ! nat 25) - (of_int bridge_y - 30 * (1 - ((of_int 25 - 50) / 50)\<^sup>2))\<bar>
        \<le> pow2 (- 44)"
    by blast+
  from b have b': "bridge_points ! nat 25 = (191, 747 / 2)" by (simp only: v)
  from m b' c show ?thesis by (intro conjI)
qed

text \<open>
  Claim C7. The samples \<open>i\<close> and \<open>100 - i\<close> have the same y-coordinate, for every \<open>i\<close> from 0 to
  100: the parameters of the two samples are exact negatives of each other, rounding
  included, and the curve's formula gives the same value at \<open>t\<close> and \<open>- t\<close>.
\<close>

theorem bridge_curve_symmetric:
  "(\<forall>i \<in> {0 .. 100}.
       snd (bridge_points ! nat i) = snd (bridge_points ! nat (100 - i))
     \<and> bridge_t (100 - i) = - bridge_t i)
   \<and> fsub (of_int bridge_y) (fmul 30 (fsub 1 (fmul (- t) (- t)))) =
       fsub (of_int bridge_y) (fmul 30 (fsub 1 (fmul t t)))"
proof (intro conjI ballI)
  fix i :: int
  assume "i \<in> {0 .. 100}"
  then have i: "0 \<le> i" "i \<le> 100" and j: "0 \<le> 100 - i" "100 - i \<le> 100" by simp_all
  show "snd (bridge_points ! nat i) = snd (bridge_points ! nat (100 - i))"
    by (simp only: bridge_points_nth [OF i] bridge_points_nth [OF j] bridge_point_mirror)
  show "bridge_t (100 - i) = - bridge_t i" by (rule bridge_t_mirror)
next
  show "fsub (of_int bridge_y) (fmul 30 (fsub 1 (fmul (- t) (- t)))) =
       fsub (of_int bridge_y) (fmul 30 (fsub 1 (fmul t t)))"
    by (simp add: fmul_def)
qed

theorem bridge_curve_symmetric_witness:
  "(25::int) \<in> {0 .. 100}
   \<and> snd (bridge_points ! nat 25) = snd (bridge_points ! nat (100 - 25))
   \<and> bridge_t (100 - 25) = - bridge_t 25"
proof -
  have m: "(25::int) \<in> {0 .. 100}" by simp
  from bridge_curve_symmetric [of 0]
  have all: "\<forall>i \<in> {0 .. 100}.
       snd (bridge_points ! nat i) = snd (bridge_points ! nat (100 - i))
     \<and> bridge_t (100 - i) = - bridge_t i"
    by (rule conjunct1)
  from bspec [OF all m] m show ?thesis by (intro conjI) blast+
qed

end
